theory Spec2Isabelle
  imports Complex_Main "HOL-Library.Char_ord" "HOL-Library.List_Lexorder" "HOL-Library.FSet"
begin

section \<open>Python values used by the ledger\<close>

text \<open>
  The ledger of \<^verbatim>\<open>Project.py\<close> (classes \<^verbatim>\<open>Expense\<close>, \<^verbatim>\<open>FileStorage\<close>,
  \<^verbatim>\<open>SectionManager\<close> and \<^verbatim>\<open>Analyzer\<close>) is embedded as HOL functions. Python
  exceptions are values of \<open>exn\<close>; a computation that may raise returns \<open>exn + 'a\<close>.
  Strings are byte strings; only ASCII white space and ASCII digits are recognised, which
  is what Python does on ASCII text.
\<close>

datatype exn =
    KeyError string
  | ValueError string
  | TypeError string
  | AttributeError string
  | OverflowError string
  | ZeroDivisionError string
  | IndexError string
  | OSError string

text \<open>\<^verbatim>\<open>repr\<close> of a string, for strings without quotes or control characters.\<close>

definition py_repr :: "string \<Rightarrow> string" where
  "py_repr s = CHR 0x27 # s @ [CHR 0x27]"

text \<open>Sequencing of computations that may raise: the first exception raised wins.\<close>

definition andthen :: "exn + 'a \<Rightarrow> ('a \<Rightarrow> exn + 'b) \<Rightarrow> exn + 'b" where
  "andthen r k = (case r of Inl e \<Rightarrow> Inl e | Inr v \<Rightarrow> k v)"

text \<open>\<^verbatim>\<open>str(e)\<close>: the message; for a \<^verbatim>\<open>KeyError\<close> the repr of the key.\<close>

fun exn_str :: "exn \<Rightarrow> string" where
  "exn_str (KeyError k) = py_repr k"
| "exn_str (ValueError m) = m"
| "exn_str (TypeError m) = m"
| "exn_str (AttributeError m) = m"
| "exn_str (OverflowError m) = m"
| "exn_str (ZeroDivisionError m) = m"
| "exn_str (IndexError m) = m"
| "exn_str (OSError m) = m"

text \<open>\<^verbatim>\<open>except ValueError\<close> catches exactly the \<^verbatim>\<open>ValueError\<close>s among these.\<close>

fun is_ValueError :: "exn \<Rightarrow> bool" where
  "is_ValueError (ValueError m) = True"
| "is_ValueError e = False"

subsection \<open>Floats\<close>

text \<open>
  A Python \<^verbatim>\<open>float\<close> is a finite value, an infinity or NaN. Finite values are
  idealised as exact rationals: rounding to the nearest double, overflow and the sign of
  zero are not modelled. The special values and the comparisons with NaN are.
\<close>

datatype pyfloat = Fin rat | PInf | NInf | NaN

text \<open>\<^verbatim>\<open>a <= b\<close>\<close>

fun fle :: "pyfloat \<Rightarrow> pyfloat \<Rightarrow> bool" where
  "fle NaN b = False"
| "fle a NaN = False"
| "fle NInf b = True"
| "fle a PInf = True"
| "fle (Fin x) (Fin y) = (x \<le> y)"
| "fle a b = False"

text \<open>\<^verbatim>\<open>a > b\<close>\<close>

fun fgt :: "pyfloat \<Rightarrow> pyfloat \<Rightarrow> bool" where
  "fgt NaN b = False"
| "fgt a NaN = False"
| "fgt (Fin x) (Fin y) = (y < x)"
| "fgt PInf PInf = False"
| "fgt PInf b = True"
| "fgt NInf b = False"
| "fgt a NInf = True"
| "fgt a b = False"



subsection \<open>Characters, digits and white space\<close>

definition is_digit :: "char \<Rightarrow> bool" where
  "is_digit c \<longleftrightarrow> 48 \<le> (of_char c :: nat) \<and> (of_char c :: nat) \<le> 57"

definition digit_val :: "char \<Rightarrow> nat" where
  "digit_val c = of_char c - 48"

definition digit_char :: "nat \<Rightarrow> char" where
  "digit_char d = char_of (48 + d)"

text \<open>The ASCII characters for which \<^verbatim>\<open>str.isspace\<close> holds.\<close>

definition is_space :: "char \<Rightarrow> bool" where
  "is_space c \<longleftrightarrow> (of_char c :: nat) \<in> {9, 10, 11, 12, 13, 28, 29, 30, 31, 32}"

text \<open>\<^verbatim>\<open>s.strip()\<close>\<close>

definition strip :: "string \<Rightarrow> string" where
  "strip s = rev (dropWhile is_space (rev (dropWhile is_space s)))"

text \<open>\<^verbatim>\<open>s.lower()\<close> on ASCII.\<close>

definition lower :: "string \<Rightarrow> string" where
  "lower s = map (\<lambda>c. if 65 \<le> (of_char c :: nat) \<and> (of_char c :: nat) \<le> 90
                        then char_of ((of_char c :: nat) + 32) else c) s"

text \<open>
  The \<^verbatim>\<open>digitpart\<close> of Python's number grammar: digits, with single underscores
  allowed between two digits.
\<close>

fun digitpart :: "string \<Rightarrow> bool" where
  "digitpart [] = False"
| "digitpart [c] = is_digit c"
| "digitpart (c # d # s) =
     (is_digit c \<and> (if d = CHR ''_'' then digitpart s else digitpart (d # s)))"

definition digits_val :: "string \<Rightarrow> nat" where
  "digits_val s = foldl (\<lambda>n c. 10 * n + digit_val c) 0 (filter is_digit s)"

text \<open>An optional sign: whether it is a minus, and the rest.\<close>

definition split_sign :: "string \<Rightarrow> bool \<times> string" where
  "split_sign s =
     (case s of
        [] \<Rightarrow> (False, [])
      | c # r \<Rightarrow> if c = CHR ''-'' then (True, r) else if c = CHR ''+'' then (False, r) else (False, s))"

subsection \<open>Integers as text\<close>

text \<open>\<^verbatim>\<open>str(n)\<close> for a natural number and for an \<^verbatim>\<open>int\<close>.\<close>

fun str_nat :: "nat \<Rightarrow> string" where
  "str_nat n = (if n < 10 then [digit_char n] else str_nat (n div 10) @ [digit_char (n mod 10)])"

declare str_nat.simps [simp del]

definition str_int :: "int \<Rightarrow> string" where
  "str_int i = (if i < 0 then CHR ''-'' # str_nat (nat (- i)) else str_nat (nat i))"

text \<open>\<^verbatim>\<open>int(s)\<close> for a string, base 10.\<close>

definition py_int :: "string \<Rightarrow> exn + int" where
  "py_int s =
     (let (neg, u) = split_sign (strip s)
      in if digitpart u then Inr (if neg then - int (digits_val u) else int (digits_val u))
         else Inl (ValueError (''invalid literal for int() with base 10: '' @ py_repr s)))"

text \<open>Zero padding on the left to a width, as \<^verbatim>\<open>%04d\<close> and \<^verbatim>\<open>%02d\<close> do.\<close>

definition zfill :: "nat \<Rightarrow> string \<Rightarrow> string" where
  "zfill w s = replicate (w - length s) (CHR ''0'') @ s"

subsection \<open>Floats as text\<close>

text \<open>
  The text before the first character satisfying \<open>P\<close>, and the text after it when there
  is one.
\<close>

definition split_at :: "(char \<Rightarrow> bool) \<Rightarrow> string \<Rightarrow> string \<times> string option" where
  "split_at P s =
     (takeWhile (\<lambda>c. \<not> P c) s,
      case dropWhile (\<lambda>c. \<not> P c) s of [] \<Rightarrow> None | c # r \<Rightarrow> Some r)"

text \<open>
  \<^verbatim>\<open>number ::= [digitpart] "." digitpart | digitpart ["."]\<close>, given as the text before
  the point and the text after it.
\<close>

definition mantissa_ok :: "string \<Rightarrow> string option \<Rightarrow> bool" where
  "mantissa_ok ip fp =
     (case fp of
        None \<Rightarrow> digitpart ip
      | Some f \<Rightarrow> (ip = [] \<or> digitpart ip) \<and> (f = [] \<or> digitpart f) \<and> \<not> (ip = [] \<and> f = []))"

definition mantissa_val :: "string \<Rightarrow> string option \<Rightarrow> rat" where
  "mantissa_val ip fp =
     (case fp of
        None \<Rightarrow> of_nat (digits_val ip)
      | Some f \<Rightarrow> of_nat (digits_val (ip @ f)) / 10 ^ length (filter is_digit f))"

text \<open>\<^verbatim>\<open>exponent ::= ("e" | "E") [sign] digitpart\<close>, given as the text after the letter.\<close>

definition exponent_ok :: "string option \<Rightarrow> bool" where
  "exponent_ok ex = (case ex of None \<Rightarrow> True | Some e \<Rightarrow> digitpart (snd (split_sign e)))"

definition scale10 :: "rat \<Rightarrow> string option \<Rightarrow> rat" where
  "scale10 x ex =
     (case ex of
        None \<Rightarrow> x
      | Some e \<Rightarrow> (let (neg, d) = split_sign e
                   in if neg then x / 10 ^ digits_val d else x * 10 ^ digits_val d))"

definition parse_number :: "string \<Rightarrow> rat option" where
  "parse_number u =
     (let (m, ex) = split_at (\<lambda>c. c = CHR ''e'' \<or> c = CHR ''E'') u;
          (ip, fp) = split_at (\<lambda>c. c = CHR ''.'') m
      in if mantissa_ok ip fp \<and> exponent_ok ex then Some (scale10 (mantissa_val ip fp) ex)
         else None)"

text \<open>\<^verbatim>\<open>float(s)\<close> for a string.\<close>

definition float_of_str :: "string \<Rightarrow> exn + pyfloat" where
  "float_of_str s =
     (let (neg, u) = split_sign (strip s)
      in if lower u = ''inf'' \<or> lower u = ''infinity'' then Inr (if neg then NInf else PInf)
         else if lower u = ''nan'' then Inr NaN
         else (case parse_number u of
                 Some x \<Rightarrow> Inr (Fin (if neg then - x else x))
               | None \<Rightarrow> Inl (ValueError (''could not convert string to float: '' @ py_repr s))))"

text \<open>Rounding to the nearest integer, ties to the even one.\<close>

definition round_half_even :: "rat \<Rightarrow> int" where
  "round_half_even y =
     (let f = \<lfloor>y\<rfloor>; r = y - of_int f
      in if r < 1 / 2 then f else if 1 / 2 < r then f + 1 else if even f then f else f + 1)"

text \<open>\<^verbatim>\<open>f"{a:.2f}"\<close>\<close>

definition fmt2 :: "pyfloat \<Rightarrow> string" where
  "fmt2 a =
     (case a of
        NaN \<Rightarrow> ''nan''
      | PInf \<Rightarrow> ''inf''
      | NInf \<Rightarrow> ''-inf''
      | Fin x \<Rightarrow>
          (let n = nat (round_half_even (\<bar>x\<bar> * 100))
           in (if x < 0 then ''-'' else '''') @ str_nat (n div 100) @ ''.''
                @ zfill 2 (str_nat (n mod 100))))"

subsection \<open>Dates\<close>

text \<open>
  A \<^verbatim>\<open>datetime.date\<close>. Python only ever builds valid dates (\<open>valid_date\<close>): years 1
  to 9999, months 1 to 12, days within the month.
\<close>

record pydate =
  year :: nat
  month :: nat
  day :: nat

definition is_leap :: "nat \<Rightarrow> bool" where
  "is_leap y \<longleftrightarrow> y mod 4 = 0 \<and> (y mod 100 \<noteq> 0 \<or> y mod 400 = 0)"

definition days_in_month :: "nat \<Rightarrow> nat \<Rightarrow> nat" where
  "days_in_month y m =
     (if m = 2 then (if is_leap y then 29 else 28)
      else if m = 4 \<or> m = 6 \<or> m = 9 \<or> m = 11 then 30 else 31)"


text \<open>\<^verbatim>\<open>d.isoformat()\<close>, that is \<^verbatim>\<open>"%04d-%02d-%02d"\<close>.\<close>

definition isoformat :: "pydate \<Rightarrow> string" where
  "isoformat d =
     zfill 4 (str_nat (year d)) @ ''-'' @ zfill 2 (str_nat (month d)) @ ''-''
       @ zfill 2 (str_nat (day d))"

text \<open>
  \<^verbatim>\<open>datetime.date.fromisoformat(s)\<close> for a string, as Python 3.7 to 3.10 define it: exactly
  \<^verbatim>\<open>YYYY-MM-DD\<close>. (Python 3.11 also reads the basic and the week formats of ISO 8601;
  on \<^verbatim>\<open>YYYY-MM-DD\<close> text all versions agree.)
\<close>

definition date_fromisoformat :: "string \<Rightarrow> exn + pydate" where
  "date_fromisoformat s =
     (if length s = 10 \<and> list_all is_digit (take 4 s) \<and> s ! 4 = CHR ''-''
         \<and> list_all is_digit (take 2 (drop 5 s)) \<and> s ! 7 = CHR ''-''
         \<and> list_all is_digit (drop 8 s)
      then (let y = digits_val (take 4 s); m = digits_val (take 2 (drop 5 s));
                d = digits_val (drop 8 s)
            in if y < 1 then Inl (ValueError ''year 0 is out of range'')
               else if m < 1 \<or> 12 < m then Inl (ValueError ''month must be in 1..12'')
               else if d < 1 \<or> days_in_month y m < d
                 then Inl (ValueError ''day is out of range for month'')
               else Inr \<lparr>year = y, month = m, day = d\<rparr>)
      else Inl (ValueError (''Invalid isoformat string: '' @ py_repr s)))"

subsection \<open>Loosely typed values\<close>

text \<open>
  The values a row of an import can hold: text, a float (pandas gives NaN for an empty
  cell), an integer or \<^verbatim>\<open>None\<close>. A \<^verbatim>\<open>dict\<close> with string keys is a map.
\<close>

datatype pyval = PStr string | PFloat pyfloat | PInt int | PNone

type_synonym pydict = "string \<rightharpoonup> pyval"

text \<open>\<^verbatim>\<open>d[k]\<close>\<close>

definition getitem :: "pydict \<Rightarrow> string \<Rightarrow> exn + pyval" where
  "getitem d k = (case d k of None \<Rightarrow> Inl (KeyError k) | Some v \<Rightarrow> Inr v)"

text \<open>\<^verbatim>\<open>row[k]\<close> on a list.\<close>

definition list_getitem :: "'a list \<Rightarrow> nat \<Rightarrow> exn + 'a" where
  "list_getitem xs k =
     (if k < length xs then Inr (xs ! k) else Inl (IndexError ''list index out of range''))"

text \<open>\<^verbatim>\<open>datetime.date.fromisoformat(v)\<close>\<close>

definition py_fromisoformat :: "pyval \<Rightarrow> exn + pydate" where
  "py_fromisoformat v =
     (case v of
        PStr s \<Rightarrow> date_fromisoformat s
      | _ \<Rightarrow> Inl (TypeError ''fromisoformat: argument must be str''))"

text \<open>\<^verbatim>\<open>v.strip()\<close>: only text has the method.\<close>

definition py_strip :: "pyval \<Rightarrow> exn + string" where
  "py_strip v =
     (case v of
        PStr s \<Rightarrow> Inr (strip s)
      | _ \<Rightarrow> Inl (AttributeError ''object has no attribute strip''))"

text \<open>
  \<^verbatim>\<open>float(v)\<close>. An integer that rounds to a double beyond the largest one raises
  \<^verbatim>\<open>OverflowError\<close>.
\<close>

definition py_float :: "pyval \<Rightarrow> exn + pyfloat" where
  "py_float v =
     (case v of
        PStr s \<Rightarrow> float_of_str s
      | PFloat a \<Rightarrow> Inr a
      | PInt i \<Rightarrow>
          (if \<bar>i\<bar> < 2 ^ 1024 - 2 ^ 970 then Inr (Fin (of_int i))
           else Inl (OverflowError ''int too large to convert to float''))
      | PNone \<Rightarrow> Inl (TypeError ''float() argument must be a string or a real number''))"

section \<open>Expense\<close>

record expense =
  ident :: int
  date :: pydate
  category :: string
  description :: string
  amount :: pyfloat

text \<open>\<^verbatim>\<open>Expense.to_row\<close>\<close>

definition to_row :: "expense \<Rightarrow> string list" where
  "to_row e =
     [str_int (ident e), isoformat (date e), category e, description e, fmt2 (amount e)]"

text \<open>\<^verbatim>\<open>Expense.from_row\<close>: the fields are read in this order, so the first failure wins.\<close>

definition from_row :: "string list \<Rightarrow> exn + expense" where
  "from_row row =
     andthen (list_getitem row 0) (\<lambda>s0. andthen (py_int s0) (\<lambda>i.
     andthen (list_getitem row 1) (\<lambda>s1. andthen (date_fromisoformat s1) (\<lambda>d.
     andthen (list_getitem row 2) (\<lambda>c.
     andthen (list_getitem row 3) (\<lambda>ds.
     andthen (list_getitem row 4) (\<lambda>s4. andthen (float_of_str s4) (\<lambda>a.
     Inr \<lparr>ident = i, date = d, category = c, description = ds, amount = a\<rparr>))))))))"

section \<open>FileStorage\<close>

text \<open>
  The backing file is the list of rows that \<^verbatim>\<open>csv.reader\<close> yields from it and that
  \<^verbatim>\<open>csv.writer\<close> writes to it (the header row first), or \<open>None\<close> when there is no such
  file. The \<^verbatim>\<open>csv\<close> module is taken as an exact codec between the text and its rows.
\<close>

type_synonym csv_file = "string list list option"

definition headers :: "string list" where
  "headers = [''id'', ''date'', ''category'', ''description'', ''amount'']"

text \<open>\<^verbatim>\<open>FileStorage._ensure_file\<close>\<close>

definition ensure_file :: "csv_file \<Rightarrow> csv_file" where
  "ensure_file f = (case f of None \<Rightarrow> Some [headers] | Some rows \<Rightarrow> Some rows)"

text \<open>The loop of \<^verbatim>\<open>load_all\<close> over the rows after the header, appending to \<open>acc\<close>.\<close>

fun load_rows :: "string list list \<Rightarrow> expense list \<Rightarrow> expense list" where
  "load_rows [] acc = acc"
| "load_rows (row # rows) acc =
     (if length row = 5
      then (case from_row row of
              Inr e \<Rightarrow> load_rows rows (acc @ [e])
            | Inl x \<Rightarrow> load_rows rows acc)
      else load_rows rows acc)"

text \<open>\<^verbatim>\<open>FileStorage.load_all\<close>: \<^verbatim>\<open>FileNotFoundError\<close> gives the empty list.\<close>

definition load_all :: "csv_file \<Rightarrow> expense list" where
  "load_all f = (case f of None \<Rightarrow> [] | Some rows \<Rightarrow> load_rows (drop 1 rows) [])"

text \<open>\<^verbatim>\<open>FileStorage.save_all\<close>: the file it leaves behind.\<close>

definition save_all :: "expense list \<Rightarrow> csv_file" where
  "save_all es = Some (headers # map to_row es)"

section \<open>SectionManager\<close>

text \<open>
  The state of one \<^verbatim>\<open>SectionManager\<close>: its three attributes, the backing file of its
  storage, and a counter of the calls of \<^verbatim>\<open>save_all\<close> made so far (not in the source;
  it records the writes to the file).
\<close>

record manager =
  expenses :: "expense list"
  next_id :: int
  categories :: "string fset"
  backing_file :: csv_file
  save_calls :: nat

definition default_categories :: "string fset" where
  "default_categories =
     {|''Food'', ''Transport'', ''Rent'', ''Utilities'', ''Entertainment'', ''Misc''|}"

text \<open>\<^verbatim>\<open>_compute_next_id\<close>: \<^verbatim>\<open>max((e.id for e in self.expenses), default=0) + 1\<close>\<close>

definition compute_next_id :: "expense list \<Rightarrow> int" where
  "compute_next_id es = (if es = [] then 0 else Max (set (map ident es))) + 1"

text \<open>
  \<^verbatim>\<open>SectionManager.__init__\<close>, from the backing file as it is found: the storage
  creates the file when it is missing, then the manager loads it.
\<close>

definition init_manager :: "csv_file \<Rightarrow> manager" where
  "init_manager f =
     (let f' = ensure_file f; es = load_all f'; cs = fset_of_list (map category es)
      in \<lparr>expenses = es, next_id = compute_next_id es,
          categories = (if cs = {||} then default_categories else cs),
          backing_file = f', save_calls = 0\<rparr>)"

text \<open>\<^verbatim>\<open>self.storage.save_all(self.expenses)\<close>\<close>

definition persist :: "manager \<Rightarrow> manager" where
  "persist m = m\<lparr>backing_file := save_all (expenses m), save_calls := save_calls m + 1\<rparr>"

text \<open>The three updates that every add makes: append, remember the category, count.\<close>

definition append_expense :: "pydate \<Rightarrow> string \<Rightarrow> string \<Rightarrow> pyfloat \<Rightarrow> manager \<Rightarrow> manager" where
  "append_expense d c ds a m =
     m\<lparr>expenses := expenses m @
            [\<lparr>ident = next_id m, date = d, category = c, description = ds, amount = a\<rparr>],
       categories := finsert c (categories m),
       next_id := next_id m + 1\<rparr>"

text \<open>\<^verbatim>\<open>add_expense\<close>: the new state and the record returned.\<close>

definition add_expense ::
  "pydate \<Rightarrow> string \<Rightarrow> string \<Rightarrow> pyfloat \<Rightarrow> manager \<Rightarrow> manager \<times> expense" where
  "add_expense d c ds a m =
     (persist (append_expense d c ds a m),
      \<lparr>ident = next_id m, date = d, category = c, description = ds, amount = a\<rparr>)"

text \<open>The body of the \<^verbatim>\<open>try\<close> in \<^verbatim>\<open>bulk_add_expenses\<close>, up to the last call that can raise.\<close>

definition coerce_row :: "pydict \<Rightarrow> exn + pydate \<times> string \<times> string \<times> pyfloat" where
  "coerce_row r =
     andthen (getitem r ''date'') (\<lambda>v. andthen (py_fromisoformat v) (\<lambda>d.
     andthen (getitem r ''category'') (\<lambda>v. andthen (py_strip v) (\<lambda>c.
     andthen (getitem r ''description'') (\<lambda>v. andthen (py_strip v) (\<lambda>ds.
     andthen (getitem r ''amount'') (\<lambda>v. andthen (py_float v) (\<lambda>a.
     Inr (d, c, ds, a)))))))))"

text \<open>The loop of \<^verbatim>\<open>bulk_add_expenses\<close>, with its two counters.\<close>

fun bulk_loop :: "pydict list \<Rightarrow> manager \<Rightarrow> nat \<Rightarrow> nat \<Rightarrow> manager \<times> nat \<times> nat" where
  "bulk_loop [] m success_count skipped_count = (m, success_count, skipped_count)"
| "bulk_loop (r # rs) m success_count skipped_count =
     (case coerce_row r of
        Inr (d, c, ds, a) \<Rightarrow>
          bulk_loop rs (append_expense d c ds a m) (success_count + 1) skipped_count
      | Inl e \<Rightarrow> bulk_loop rs m success_count (skipped_count + 1))"

definition bulk_add_expenses :: "pydict list \<Rightarrow> manager \<Rightarrow> manager \<times> nat \<times> nat" where
  "bulk_add_expenses expenses_data m =
     (case bulk_loop expenses_data m 0 0 of
        (m', success_count, skipped_count) \<Rightarrow>
          (if success_count > 0 then persist m' else m', success_count, skipped_count))"

text \<open>
  \<^verbatim>\<open>parse_csv_file\<close>. Its argument is what \<^verbatim>\<open>pd.read_csv(filepath)\<close> gives: an
  exception, or the rows of the data frame, each a map from the column names to the
  cells. \<^verbatim>\<open>row.get(k, default)\<close> is \<open>row_get\<close>.
\<close>

type_synonym series = "string \<rightharpoonup> pyval"

definition row_get :: "series \<Rightarrow> string \<Rightarrow> pyval \<Rightarrow> pyval" where
  "row_get row k dflt = (case row k of Some v \<Rightarrow> v | None \<Rightarrow> dflt)"

definition row_to_dict :: "series \<Rightarrow> exn + pydict" where
  "row_to_dict row =
     andthen (py_float (row_get row ''cost'' (row_get row ''Cost'' (row_get row ''amount'' (PInt 0)))))
       (\<lambda>a. Inr [''date'' \<mapsto> row_get row ''date'' (PStr []),
                 ''category'' \<mapsto> row_get row ''category'' (row_get row ''Category'' (PStr [])),
                 ''description'' \<mapsto>
                    row_get row ''item'' (row_get row ''Item'' (row_get row ''description'' (PStr []))),
                 ''amount'' \<mapsto> PFloat a])"

fun parse_rows :: "series list \<Rightarrow> pydict list \<Rightarrow> exn + pydict list" where
  "parse_rows [] acc = Inr acc"
| "parse_rows (row # rows) acc =
     (case row_to_dict row of
        Inl e \<Rightarrow> Inl e
      | Inr d \<Rightarrow> parse_rows rows (acc @ [d]))"

definition parse_csv_file :: "exn + series list \<Rightarrow> exn + pydict list" where
  "parse_csv_file read_csv =
     (case andthen read_csv (\<lambda>df. parse_rows df []) of
        Inl e \<Rightarrow> Inl (ValueError (''CSV parsing error: '' @ exn_str e))
      | Inr ds \<Rightarrow> Inr ds)"

text \<open>
  \<^verbatim>\<open>validate_expenses\<close>. The body of the \<^verbatim>\<open>try\<close> for row number \<open>i\<close> gives the
  message it appends before \<^verbatim>\<open>continue\<close>, or \<open>None\<close> when it reaches the append to the
  valid rows; the two \<^verbatim>\<open>except\<close> clauses turn an exception into a message.
\<close>

definition row_msg :: "nat \<Rightarrow> string \<Rightarrow> string" where
  "row_msg i txt = ''Row '' @ str_nat i @ '': '' @ txt"

definition validate_body :: "nat \<Rightarrow> pydict \<Rightarrow> exn + string option" where
  "validate_body i r =
     andthen (getitem r ''date'') (\<lambda>v. andthen (py_fromisoformat v) (\<lambda>d.
     andthen (getitem r ''amount'') (\<lambda>v. andthen (py_float v) (\<lambda>a.
     if fle a (Fin 0) then Inr (Some (row_msg i ''Amount must be positive''))
     else andthen (getitem r ''category'') (\<lambda>v. andthen (py_strip v) (\<lambda>c.
     if c = [] then Inr (Some (row_msg i ''Category cannot be empty''))
     else andthen (getitem r ''description'') (\<lambda>v. andthen (py_strip v) (\<lambda>ds.
     if ds = [] then Inr (Some (row_msg i ''Item/Description cannot be empty''))
     else Inr None))))))))"

definition validate_row :: "nat \<Rightarrow> pydict \<Rightarrow> string option" where
  "validate_row i r =
     (case validate_body i r of
        Inr res \<Rightarrow> res
      | Inl e \<Rightarrow>
          Some (if is_ValueError e then row_msg i (''Invalid date format - '' @ exn_str e)
                else row_msg i (exn_str e)))"

fun validate_loop ::
  "nat \<Rightarrow> pydict list \<Rightarrow> pydict list \<Rightarrow> string list \<Rightarrow> pydict list \<times> string list" where
  "validate_loop i [] valid_expenses errors = (valid_expenses, errors)"
| "validate_loop i (r # rs) valid_expenses errors =
     (case validate_row i r of
        None \<Rightarrow> validate_loop (i + 1) rs (valid_expenses @ [r]) errors
      | Some msg \<Rightarrow> validate_loop (i + 1) rs valid_expenses (errors @ [msg]))"

definition validate_expenses :: "pydict list \<Rightarrow> pydict list \<times> string list" where
  "validate_expenses rows = validate_loop 1 rows [] []"

text \<open>
  \<^verbatim>\<open>update_expense\<close>. The loop replaces the first record with the id and returns;
  \<open>None\<close> is the loop running to its end.
\<close>

fun replace_first :: "int \<Rightarrow> expense \<Rightarrow> expense list \<Rightarrow> expense list option" where
  "replace_first i new [] = None"
| "replace_first i new (e # es) =
     (if ident e = i then Some (new # es) else map_option ((#) e) (replace_first i new es))"

definition update_expense ::
  "int \<Rightarrow> pydate \<Rightarrow> string \<Rightarrow> string \<Rightarrow> pyfloat \<Rightarrow> manager \<Rightarrow> manager \<times> bool" where
  "update_expense expense_id d c ds a m =
     (case replace_first expense_id
             \<lparr>ident = expense_id, date = d, category = c, description = ds, amount = a\<rparr>
             (expenses m) of
        Some es \<Rightarrow> (persist (m\<lparr>expenses := es, categories := finsert c (categories m)\<rparr>), True)
      | None \<Rightarrow> (m, False))"

text \<open>\<^verbatim>\<open>delete_expense\<close>\<close>

definition delete_expense :: "int \<Rightarrow> manager \<Rightarrow> manager \<times> bool" where
  "delete_expense expense_id m =
     (let before = length (expenses m);
          m' = m\<lparr>expenses := filter (\<lambda>e. ident e \<noteq> expense_id) (expenses m)\<rparr>;
          after = length (expenses m')
      in if after < before then (persist m', True) else (m', False))"

text \<open>\<^verbatim>\<open>filter_by_month\<close>, \<^verbatim>\<open>get_all\<close>, \<^verbatim>\<open>add_category\<close> and \<^verbatim>\<open>get_categories\<close>\<close>

definition filter_by_month :: "nat \<Rightarrow> nat \<Rightarrow> manager \<Rightarrow> expense list" where
  "filter_by_month y mo m = filter (\<lambda>e. year (date e) = y \<and> month (date e) = mo) (expenses m)"


definition add_category :: "string \<Rightarrow> manager \<Rightarrow> manager" where
  "add_category c m = m\<lparr>categories := finsert c (categories m)\<rparr>"

definition get_categories :: "manager \<Rightarrow> string list" where
  "get_categories m = sorted_list_of_fset (categories m)"

section \<open>Analyzer\<close>







section \<open>Sequences of calls\<close>

text \<open>
  The calls that change a \<^verbatim>\<open>SectionManager\<close>, and the state after a sequence of them.
  \<open>new_ids\<close> lists the ids a call gives to the records it appends, \<open>removed\<close> tells
  whether a call is a \<^verbatim>\<open>delete_expense\<close> that returns \<^verbatim>\<open>True\<close>.
\<close>

datatype call =
    Add pydate string string pyfloat
  | BulkAdd "pydict list"
  | Update int pydate string string pyfloat
  | Delete int
  | AddCategory string

fun step :: "call \<Rightarrow> manager \<Rightarrow> manager" where
  "step (Add d c ds a) m = fst (add_expense d c ds a m)"
| "step (BulkAdd rows) m = fst (bulk_add_expenses rows m)"
| "step (Update i d c ds a) m = fst (update_expense i d c ds a m)"
| "step (Delete i) m = fst (delete_expense i m)"
| "step (AddCategory c) m = add_category c m"

fun run :: "call list \<Rightarrow> manager \<Rightarrow> manager" where
  "run [] m = m"
| "run (c # cs) m = run cs (step c m)"





section \<open>Example data\<close>

definition jan1 :: pydate where
  "jan1 = \<lparr>year = 2024, month = 1, day = 1\<rparr>"

definition feb2 :: pydate where
  "feb2 = \<lparr>year = 2024, month = 2, day = 2\<rparr>"

text \<open>A ledger with the records 1 (Food) and 2 (Rent), made by two adds on a new file.\<close>

definition two_records :: manager where
  "two_records =
     run [Add jan1 ''Food'' ''lunch'' (Fin 12), Add feb2 ''Rent'' ''flat'' (Fin 500)]
       (init_manager None)"

section \<open>Specification-level functions\<close>

text \<open>
  What the claims speak of, written directly: the rows of an import that coerce, in
  order; the records made from them with consecutive ids; and the invariant that every
  id in the ledger is below the counter.
\<close>

definition coerced :: "pydict list \<Rightarrow> (pydate \<times> string \<times> string \<times> pyfloat) list" where
  "coerced rows =
     List.map_filter (\<lambda>r. case coerce_row r of Inr x \<Rightarrow> Some x | Inl e \<Rightarrow> None) rows"

fun number_from :: "int \<Rightarrow> (pydate \<times> string \<times> string \<times> pyfloat) list \<Rightarrow> expense list" where
  "number_from n [] = []"
| "number_from n ((d, c, ds, a) # xs) =
     \<lparr>ident = n, date = d, category = c, description = ds, amount = a\<rparr> # number_from (n + 1) xs"


text \<open>More example data: a row that coerces, and a sequence of calls.\<close>

definition good_row :: pydict where
  "good_row = [''date'' \<mapsto> PStr ''2024-03-05'', ''category'' \<mapsto> PStr '' Travel'',
               ''description'' \<mapsto> PStr ''bus'', ''amount'' \<mapsto> PFloat (Fin 3)]"


text \<open>
  A row of the backing file is well formed when it has five fields of which the first
  reads as an integer, the second as a date and the fifth as a float; \<open>parsed\<close> is the
  record it stands for.
\<close>

definition well_formed :: "string list \<Rightarrow> bool" where
  "well_formed row \<longleftrightarrow>
     length row = 5 \<and> \<not> isl (py_int (row ! 0)) \<and> \<not> isl (date_fromisoformat (row ! 1))
       \<and> \<not> isl (float_of_str (row ! 4))"

definition parsed :: "string list \<Rightarrow> expense" where
  "parsed row =
     \<lparr>ident = projr (py_int (row ! 0)), date = projr (date_fromisoformat (row ! 1)),
      category = row ! 2, description = row ! 3, amount = projr (float_of_str (row ! 4))\<rparr>"

definition sample_file :: csv_file where
  "sample_file =
     Some [headers,
           [''1'', ''2024-01-01'', ''Food'', ''lunch'', ''12.50''],
           [''2'', ''2024-01-02'', ''Food''],
           [''x'', ''2024-01-03'', ''Food'', ''tea'', ''2.00''],
           [''4'', ''2024-13-01'', ''Rent'', ''flat'', ''500.00''],
           [''5'', ''2024-01-03'', ''Rent'', ''flat'', ''lots''],
           ['' 6 '', ''2024-01-01'', [], ''a, b'', ''2.00'']]"

text \<open>
  A row coerces exactly when it is \<open>coercible\<close>: its date is text that reads as a date,
  its category and description are text (of any content, empty too), and its amount is
  there and \<^verbatim>\<open>float()\<close> accepts it.
\<close>

definition coercible :: "pydict \<Rightarrow> bool" where
  "coercible r \<longleftrightarrow>
     (case (r ''date'', r ''category'', r ''description'', r ''amount'') of
        (Some (PStr s), Some (PStr c), Some (PStr ds), Some v) \<Rightarrow>
          \<not> isl (date_fromisoformat s) \<and> \<not> isl (py_float v)
      | _ \<Rightarrow> False)"

text \<open>
  Rows for the examples: one with a blank category, one with a date that is none, one
  without an amount, one whose category cell is NaN (an empty cell read by pandas), and a
  batch of ten rows of which three do not coerce.
\<close>

definition blank_row :: pydict where
  "blank_row = [''date'' \<mapsto> PStr ''2024-03-05'', ''category'' \<mapsto> PStr ''   '',
                ''description'' \<mapsto> PStr ''bus'', ''amount'' \<mapsto> PFloat (Fin 3)]"

definition bad_date_row :: pydict where
  "bad_date_row = [''date'' \<mapsto> PStr ''2024-13-40'', ''category'' \<mapsto> PStr ''Food'',
                   ''description'' \<mapsto> PStr ''x'', ''amount'' \<mapsto> PStr ''10'']"

definition no_amount_row :: pydict where
  "no_amount_row = [''date'' \<mapsto> PStr ''2024-03-05'', ''category'' \<mapsto> PStr ''Food'',
                    ''description'' \<mapsto> PStr ''x'']"

definition nan_category_row :: pydict where
  "nan_category_row = [''date'' \<mapsto> PStr ''2024-03-05'', ''category'' \<mapsto> PFloat NaN,
                       ''description'' \<mapsto> PStr ''x'', ''amount'' \<mapsto> PFloat (Fin 3)]"

definition ten_rows :: "pydict list" where
  "ten_rows = [good_row, bad_date_row, good_row, good_row, no_amount_row, good_row, good_row,
               nan_category_row, good_row, good_row]"

text \<open>
  For the import: the cell that \<^verbatim>\<open>parse_csv_file\<close> takes as the amount of a row; a row
  that names its columns Cost and Item, and the same row under the names amount and
  description; and example rows of a data frame.
\<close>

definition amount_cell :: "series \<Rightarrow> pyval" where
  "amount_cell row = row_get row ''cost'' (row_get row ''Cost'' (row_get row ''amount'' (PInt 0)))"

definition uses_Cost_Item :: "series \<Rightarrow> bool" where
  "uses_Cost_Item row \<longleftrightarrow>
     row ''cost'' = None \<and> row ''item'' = None \<and> row ''amount'' = None \<and> row ''description'' = None"

definition canonical_names :: "series \<Rightarrow> series" where
  "canonical_names row =
     row(''Cost'' := None, ''Item'' := None, ''amount'' := row ''Cost'', ''description'' := row ''Item'')"

definition fine_series :: series where
  "fine_series = [''date'' \<mapsto> PStr ''2024-01-01'', ''category'' \<mapsto> PStr ''Food'',
                  ''Item'' \<mapsto> PStr ''x'', ''Cost'' \<mapsto> PFloat (Fin 10)]"

definition text_cost_series :: series where
  "text_cost_series = [''date'' \<mapsto> PStr ''2024-01-02'', ''category'' \<mapsto> PStr ''Food'',
                       ''Item'' \<mapsto> PStr ''y'', ''Cost'' \<mapsto> PStr ''abc'']"

definition empty_cost_series :: series where
  "empty_cost_series = [''date'' \<mapsto> PStr ''2024-01-01'', ''category'' \<mapsto> PStr ''Food'',
                        ''item'' \<mapsto> PStr ''x'', ''cost'' \<mapsto> PFloat NaN]"

definition bare_series :: series where
  "bare_series = [''date'' \<mapsto> PStr ''2024-01-01'']"

text \<open>The row that \<^verbatim>\<open>parse_csv_file\<close> makes of a row whose amount cell is empty.\<close>

definition nan_row :: pydict where
  "nan_row = [''date'' \<mapsto> PStr ''2024-01-01'', ''category'' \<mapsto> PStr ''Food'',
              ''description'' \<mapsto> PStr ''x'', ''amount'' \<mapsto> PFloat NaN]"

text \<open>
  What \<^verbatim>\<open>validate_expenses\<close> lets through, as its four checks are written: a date that
  reads, an amount that converts and is not \<^verbatim>\<open><= 0\<close>, and a category and a description
  that are text with something left after trimming.
\<close>

definition passes :: "pydict \<Rightarrow> bool" where
  "passes r \<longleftrightarrow>
     (case (r ''date'', r ''amount'', r ''category'', r ''description'') of
        (Some (PStr s), Some v, Some (PStr c), Some (PStr ds)) \<Rightarrow>
          \<not> isl (date_fromisoformat s)
          \<and> (case py_float v of Inl e \<Rightarrow> False | Inr a \<Rightarrow> \<not> fle a (Fin 0))
          \<and> strip c \<noteq> [] \<and> strip ds \<noteq> []
      | _ \<Rightarrow> False)"


definition val :: "pyfloat \<Rightarrow> rat" where
  "val a = (case a of Fin x \<Rightarrow> x | _ \<Rightarrow> 0)"

definition amounts_total :: "expense list \<Rightarrow> rat" where
  "amounts_total es = sum_list (map (\<lambda>e. val (amount e)) es)"


definition distinct_days :: "expense list \<Rightarrow> nat" where
  "distinct_days es = card (date ` set es)"





text \<open>
  For the round trip through the file: a float rounded to two decimals as
  \<^verbatim>\<open>f"{a:.2f}"\<close> followed by \<^verbatim>\<open>float()\<close> rounds it, and a record as it comes back.
\<close>

definition round2 :: "pyfloat \<Rightarrow> pyfloat" where
  "round2 a =
     (case a of
        Fin x \<Rightarrow> Fin ((if x < 0 then - 1 else 1) * of_int (round_half_even (\<bar>x\<bar> * 100)) / 100)
      | _ \<Rightarrow> a)"




section \<open>The example ledger\<close>

lemma init_manager_None:
  "init_manager None = \<lparr>expenses = [], next_id = 1, categories = default_categories,
      backing_file = Some [headers], save_calls = 0\<rparr>"
  by (simp add: init_manager_def ensure_file_def load_all_def compute_next_id_def Let_def)

lemma two_records_ids: "map ident (expenses two_records) = [1, 2]"
  by (simp add: two_records_def init_manager_None add_expense_def persist_def append_expense_def)

lemma coerce_good_row:
  "coerce_row good_row = Inr (\<lparr>year = 2024, month = 3, day = 5\<rparr>, ''Travel'', ''bus'', Fin 3)"
  by code_simp

lemma two_records_expenses:
  "expenses two_records =
     [\<lparr>ident = 1, date = jan1, category = ''Food'', description = ''lunch'', amount = Fin 12\<rparr>,
      \<lparr>ident = 2, date = feb2, category = ''Rent'', description = ''flat'', amount = Fin 500\<rparr>]"
  by (simp add: two_records_def init_manager_None add_expense_def persist_def append_expense_def)



section \<open>Deleting and updating\<close>

lemma length_filter_less_iff:
  "length (filter (\<lambda>e. f e \<noteq> i) xs) < length xs \<longleftrightarrow> i \<in> f ` set xs"
proof (induction xs)
  case Nil
  then show ?case by simp
next
  case (Cons x xs)
  have le: "length (filter (\<lambda>e. f e \<noteq> i) xs) \<le> length xs" by simp
  show ?case using Cons le by (auto simp: less_Suc_eq_le)
qed

lemma length_filter_count:
  "length (filter (\<lambda>e. f e \<noteq> i) xs) = length xs - count_list (map f xs) i"
proof (induction xs)
  case Nil
  then show ?case by simp
next
  case (Cons x xs)
  have "count_list (map f xs) i \<le> length xs"
    by (metis count_le_length length_map)
  then show ?case using Cons by auto
qed

text \<open>
  C10. \<^verbatim>\<open>delete_expense(id)\<close> keeps exactly the records with another id, in their order:
  every record with the id goes (not only the first), none with the id is left, whatever
  the list was. It returns \<^verbatim>\<open>True\<close> exactly when a record had the id, which is exactly
  when the list became shorter; the list shrinks by the number of records with the id.
\<close>

theorem delete_expense_removes_every_match:
  "expenses (fst (delete_expense i m)) = filter (\<lambda>e. ident e \<noteq> i) (expenses m)
   \<and> i \<notin> ident ` set (expenses (fst (delete_expense i m)))
   \<and> snd (delete_expense i m) = (i \<in> ident ` set (expenses m))
   \<and> snd (delete_expense i m) = (length (expenses (fst (delete_expense i m))) < length (expenses m))
   \<and> length (expenses (fst (delete_expense i m))) =
       length (expenses m) - count_list (map ident (expenses m)) i"
  using length_filter_less_iff [of ident i "expenses m"] length_filter_count [of ident i "expenses m"]
  by (auto simp: delete_expense_def Let_def persist_def)

lemma replace_first_None: "replace_first i new es = None \<longleftrightarrow> i \<notin> ident ` set es"
  by (induction es) auto

lemma replace_first_Some:
  "replace_first i new es = Some es' \<Longrightarrow>
     \<exists>k<length es. ident (es ! k) = i \<and> (\<forall>j<k. ident (es ! j) \<noteq> i) \<and> es' = es[k := new]"
proof (induction es arbitrary: es')
  case Nil
  then show ?case by simp
next
  case (Cons e es)
  show ?case
  proof (cases "ident e = i")
    case True
    with Cons.prems have "es' = (e # es)[0 := new]" by simp
    with True show ?thesis by (intro exI [of _ 0]) simp
  next
    case False
    with Cons.prems obtain es'' where r: "replace_first i new es = Some es''" and e: "es' = e # es''"
      by auto
    from Cons.IH [OF r] obtain k where k: "k < length es" "ident (es ! k) = i"
      "\<forall>j<k. ident (es ! j) \<noteq> i" "es'' = es[k := new]" by blast
    have "\<forall>j<Suc k. ident ((e # es) ! j) \<noteq> i"
      using k(3) False by (auto simp: nth_Cons split: nat.splits)
    with k e show ?thesis by (intro exI [of _ "Suc k"]) simp
  qed
qed

text \<open>
  C5. When a record has the id, \<^verbatim>\<open>update_expense\<close> returns \<^verbatim>\<open>True\<close> and the new list
  is the old one with the new record written at the position of the first record with
  the id, every other position as it was. When no record has the id, it returns
  \<^verbatim>\<open>False\<close> and the manager is unchanged. After \<^verbatim>\<open>delete_expense(id)\<close>, an
  \<^verbatim>\<open>update_expense(id, ...)\<close> returns \<^verbatim>\<open>False\<close>.
\<close>

theorem update_expense_in_place:
  "(i \<in> ident ` set (expenses m) \<longrightarrow>
      snd (update_expense i d c ds a m) = True \<and>
      (\<exists>k<length (expenses m).
          ident (expenses m ! k) = i \<and> (\<forall>j<k. ident (expenses m ! j) \<noteq> i) \<and>
          expenses (fst (update_expense i d c ds a m)) =
            (expenses m)[k := \<lparr>ident = i, date = d, category = c, description = ds, amount = a\<rparr>]))
   \<and> (i \<notin> ident ` set (expenses m) \<longrightarrow> update_expense i d c ds a m = (m, False))
   \<and> snd (update_expense i d c ds a (fst (delete_expense i m'))) = False"
proof (intro conjI impI)
  let ?new = "\<lparr>ident = i, date = d, category = c, description = ds, amount = a\<rparr>"
  assume "i \<in> ident ` set (expenses m)"
  then obtain es' where r: "replace_first i ?new (expenses m) = Some es'"
    using replace_first_None [of i ?new "expenses m"] by (cases "replace_first i ?new (expenses m)") auto
  show "snd (update_expense i d c ds a m) = True"
    using r by (simp add: update_expense_def)
  show "\<exists>k<length (expenses m).
          ident (expenses m ! k) = i \<and> (\<forall>j<k. ident (expenses m ! j) \<noteq> i) \<and>
          expenses (fst (update_expense i d c ds a m)) = (expenses m)[k := ?new]"
    using replace_first_Some [OF r] r by (simp add: update_expense_def persist_def)
next
  assume "i \<notin> ident ` set (expenses m)"
  then show "update_expense i d c ds a m = (m, False)"
    using replace_first_None [of i _ "expenses m"] by (simp add: update_expense_def)
next
  have "i \<notin> ident ` set (expenses (fst (delete_expense i m')))"
    by (auto simp: delete_expense_def Let_def persist_def)
  then show "snd (update_expense i d c ds a (fst (delete_expense i m'))) = False"
    using replace_first_None [of i _ "expenses (fst (delete_expense i m'))"]
    by (simp add: update_expense_def)
qed

text \<open>
  On the ledger with the records 1 and 2: updating 1 finds it, updating 3 does not and
  changes nothing, and 2 cannot be updated once it is deleted.
\<close>

theorem update_expense_in_place_witness:
  "1 \<in> ident ` set (expenses two_records)
   \<and> snd (update_expense 1 feb2 ''Misc'' ''gift'' (Fin 30) two_records) = True
   \<and> 3 \<notin> ident ` set (expenses two_records)
   \<and> update_expense 3 feb2 ''Misc'' ''gift'' (Fin 30) two_records = (two_records, False)
   \<and> snd (delete_expense 2 two_records) = True
   \<and> snd (update_expense 2 feb2 ''Misc'' ''gift'' (Fin 30) (fst (delete_expense 2 two_records))) = False"
proof -
  have h1: "1 \<in> ident ` set (expenses two_records)" and h3: "3 \<notin> ident ` set (expenses two_records)"
    and h2: "2 \<in> ident ` set (expenses two_records)"
    using two_records_ids by (simp_all flip: set_map)
  have del: "snd (delete_expense 2 two_records) = True"
    using h2 length_filter_less_iff [of ident 2 "expenses two_records"]
    by (simp add: delete_expense_def Let_def)
  have u1: "snd (update_expense 1 feb2 ''Misc'' ''gift'' (Fin 30) two_records) = True"
    using h1 update_expense_in_place [of 1 two_records feb2 "''Misc''" "''gift''" "Fin 30" two_records]
    by blast
  have u3: "update_expense 3 feb2 ''Misc'' ''gift'' (Fin 30) two_records = (two_records, False)"
    using h3 update_expense_in_place [of 3 two_records feb2 "''Misc''" "''gift''" "Fin 30" two_records]
    by blast
  have u2: "snd (update_expense 2 feb2 ''Misc'' ''gift'' (Fin 30) (fst (delete_expense 2 two_records))) = False"
    using update_expense_in_place [of 2 two_records feb2 "''Misc''" "''gift''" "Fin 30" two_records]
    by blast
  show ?thesis
    using h1 h3 del u1 u3 u2 by blast
qed

section \<open>Identifiers\<close>

lemma coerced_Nil [simp]: "coerced [] = []"
  by (simp add: coerced_def)

lemma coerced_Cons:
  "coerced (r # rs) = (case coerce_row r of Inr x \<Rightarrow> x # coerced rs | Inl e \<Rightarrow> coerced rs)"
  by (simp add: coerced_def split: sum.splits)

lemma length_coerced: "length (coerced rows) \<le> length rows"
  by (induction rows) (auto simp: coerced_Cons split: sum.splits)

lemma length_coerced_filter:
  "length (coerced rows) = length (filter (\<lambda>r. \<not> isl (coerce_row r)) rows)"
  by (induction rows) (auto simp: coerced_Cons split: sum.splits)

lemma number_from_append:
  "number_from n (xs @ ys) = number_from n xs @ number_from (n + int (length xs)) ys"
  by (induction n xs rule: number_from.induct) (simp_all add: algebra_simps)

lemma length_number_from [simp]: "length (number_from n xs) = length xs"
  by (induction n xs rule: number_from.induct) simp_all


lemma category_number_from:
  "map category (number_from n xs) = map (\<lambda>x. fst (snd x)) xs"
  by (induction n xs rule: number_from.induct) simp_all

text \<open>The loop of the bulk add, in closed form.\<close>

lemma bulk_loop_eq:
  "bulk_loop rows m ok sk =
     (m\<lparr>expenses := expenses m @ number_from (next_id m) (coerced rows),
        categories := categories m |\<union>| fset_of_list (map (\<lambda>x. fst (snd x)) (coerced rows)),
        next_id := next_id m + int (length (coerced rows))\<rparr>,
      ok + length (coerced rows), sk + (length rows - length (coerced rows)))"
proof (induction rows arbitrary: m ok sk)
  case Nil
  then show ?case by simp
next
  case (Cons r rs)
  show ?case
  proof (cases "coerce_row r")
    case (Inl e)
    then show ?thesis
      using Cons [of m ok "sk + 1"] length_coerced [of rs]
      by (simp add: coerced_Cons Suc_diff_le)
  next
    case (Inr x)
    obtain d c ds a where x: "x = (d, c, ds, a)" by (cases x)
    show ?thesis
      using Cons [of "append_expense d c ds a m" "ok + 1" sk] Inr x
      by (simp add: coerced_Cons append_expense_def algebra_simps)
  qed
qed


lemma bulk_add_expenses_eq:
  "bulk_add_expenses rows m =
     (let xs = coerced rows;
          m' = m\<lparr>expenses := expenses m @ number_from (next_id m) xs,
                 categories := categories m |\<union>| fset_of_list (map (\<lambda>x. fst (snd x)) xs),
                 next_id := next_id m + int (length xs)\<rparr>
      in (if 0 < length xs then persist m' else m', length xs, length rows - length xs))"
  by (simp add: bulk_add_expenses_def bulk_loop_eq Let_def)























section \<open>Known categories\<close>

lemma sorted_list_of_fset_sorted:
  "sorted (sorted_list_of_fset S) \<and> distinct (sorted_list_of_fset S)"
  by (simp add: sorted_list_of_fset.rep_eq)

lemma sorted_get_categories: "sorted (get_categories m) \<and> distinct (get_categories m)"
  unfolding get_categories_def by (rule sorted_list_of_fset_sorted)

lemma set_get_categories: "set (get_categories m) = fset (categories m)"
  by (simp add: get_categories_def)

lemma categories_step: "categories m |\<subseteq>| categories (step c m)"
proof (cases c)
  case (BulkAdd rows)
  then show ?thesis by (simp add: bulk_add_expenses_eq Let_def persist_def)
qed (auto simp: add_expense_def persist_def append_expense_def update_expense_def
      delete_expense_def Let_def add_category_def split: option.splits)

lemma categories_run: "categories m |\<subseteq>| categories (run cs m)"
proof (induction cs arbitrary: m)
  case Nil
  then show ?case by simp
next
  case (Cons c cs)
  have "categories m |\<subseteq>| categories (step c m)" by (rule categories_step)
  also have "\<dots> |\<subseteq>| categories (run cs (step c m))" by (rule Cons)
  finally show ?case by simp
qed

text \<open>
  C9. The set of known categories only grows along any sequence of calls, so
  \<^verbatim>\<open>get_categories()\<close>, which is sorted and without repetition, always contains what it
  contained before. A successful \<^verbatim>\<open>update_expense\<close> with category \<open>c\<close> leaves \<open>c\<close>
  in it, as \<^verbatim>\<open>add_expense\<close> does and \<^verbatim>\<open>bulk_add_expenses\<close> does for every row it adds;
  \<^verbatim>\<open>delete_expense\<close> leaves the set as it was.
\<close>

theorem categories_only_grow:
  "categories m |\<subseteq>| categories (run cs m)
   \<and> set (get_categories m) \<subseteq> set (get_categories (run cs m))
   \<and> sorted (get_categories (run cs m)) \<and> distinct (get_categories (run cs m))
   \<and> (snd (update_expense i d c ds a m) \<longrightarrow>
        c \<in> set (get_categories (fst (update_expense i d c ds a m))))
   \<and> c \<in> set (get_categories (fst (add_expense d c ds a m)))
   \<and> (\<forall>x\<in>set (coerced rows). fst (snd x) \<in> set (get_categories (fst (bulk_add_expenses rows m))))
   \<and> categories (fst (delete_expense i m)) = categories m"
proof -
  have 1: "categories m |\<subseteq>| categories (run cs m)" by (rule categories_run)
  have 2: "set (get_categories m) \<subseteq> set (get_categories (run cs m))"
    using 1 unfolding set_get_categories by (simp add: less_eq_fset.rep_eq)
  have 5: "snd (update_expense i d c ds a m) \<longrightarrow>
        c \<in> set (get_categories (fst (update_expense i d c ds a m)))"
    unfolding set_get_categories
    by (simp add: update_expense_def persist_def split: option.splits)
  have 6: "c \<in> set (get_categories (fst (add_expense d c ds a m)))"
    unfolding set_get_categories by (simp add: add_expense_def persist_def append_expense_def)
  have 7: "\<forall>x\<in>set (coerced rows). fst (snd x) \<in> set (get_categories (fst (bulk_add_expenses rows m)))"
    unfolding set_get_categories
    by (auto simp: bulk_add_expenses_eq Let_def persist_def fset_of_list.rep_eq)
  have 8: "categories (fst (delete_expense i m)) = categories m"
    by (simp add: delete_expense_def Let_def persist_def)
  show ?thesis
    by (intro conjI 1 2 5 6 7 8 conjunct1 [OF sorted_get_categories]
          conjunct2 [OF sorted_get_categories])
qed

text \<open>
  On the ledger with the records 1 and 2: an update to the new category Misc succeeds and
  Misc is known afterwards; a bulk add of a row with the category Travel makes Travel
  known; deleting both records forgets no category.
\<close>

theorem categories_only_grow_witness:
  "snd (update_expense 1 feb2 ''Misc'' ''gift'' (Fin 30) two_records)
   \<and> ''Misc'' \<in> set (get_categories (fst (update_expense 1 feb2 ''Misc'' ''gift'' (Fin 30) two_records)))
   \<and> coerced [good_row] = [(\<lparr>year = 2024, month = 3, day = 5\<rparr>, ''Travel'', ''bus'', Fin 3)]
   \<and> ''Travel'' \<in> set (get_categories (fst (bulk_add_expenses [good_row] two_records)))
   \<and> set (get_categories two_records) \<subseteq> set (get_categories (run [Delete 1, Delete 2] two_records))"
proof -
  note t = categories_only_grow [where m = two_records and cs = "[Delete 1, Delete 2]" and i = 1
      and d = feb2 and c = "''Misc''" and ds = "''gift''" and a = "Fin 30" and rows = "[good_row]"]
  note t4 = t [THEN conjunct2, THEN conjunct2, THEN conjunct2, THEN conjunct2]
  have u: "snd (update_expense 1 feb2 ''Misc'' ''gift'' (Fin 30) two_records)"
    by (simp add: update_expense_def two_records_expenses)
  have c: "coerced [good_row] = [(\<lparr>year = 2024, month = 3, day = 5\<rparr>, ''Travel'', ''bus'', Fin 3)]"
    by (simp add: coerced_Cons coerce_good_row)
  have 1: "''Misc'' \<in> set (get_categories (fst (update_expense 1 feb2 ''Misc'' ''gift'' (Fin 30) two_records)))"
    by (rule t4 [THEN conjunct1, THEN mp, OF u])
  have b: "\<forall>x\<in>set (coerced [good_row]).
            fst (snd x) \<in> set (get_categories (fst (bulk_add_expenses [good_row] two_records)))"
    by (rule t4 [THEN conjunct2, THEN conjunct2, THEN conjunct1])
  have 2: "''Travel'' \<in> set (get_categories (fst (bulk_add_expenses [good_row] two_records)))"
    using b unfolding c by simp
  have 3: "set (get_categories two_records) \<subseteq> set (get_categories (run [Delete 1, Delete 2] two_records))"
    by (rule t [THEN conjunct2, THEN conjunct1])
  show ?thesis
    by (intro conjI u 1 c 2 3)
qed

section \<open>Loading\<close>

lemma from_row_five:
  assumes "length row = 5"
  shows "from_row row = Inr e \<longleftrightarrow> well_formed row \<and> e = parsed row"
    and "isl (from_row row) \<longleftrightarrow> \<not> well_formed row"
  using assms
  by (auto simp: from_row_def andthen_def list_getitem_def well_formed_def parsed_def
      split: sum.splits)

lemma load_rows_eq: "load_rows rows acc = acc @ map parsed (filter well_formed rows)"
proof (induction rows arbitrary: acc)
  case Nil
  then show ?case by simp
next
  case (Cons row rows)
  show ?case
  proof (cases "length row = 5")
    case False
    then show ?thesis using Cons by (simp add: well_formed_def)
  next
    case True
    show ?thesis
    proof (cases "from_row row")
      case (Inl x)
      then have "\<not> well_formed row" using from_row_five(2) [OF True] by simp
      then show ?thesis using Cons True Inl by simp
    next
      case (Inr e)
      then have "well_formed row" "e = parsed row" using from_row_five(1) [OF True] by simp_all
      then show ?thesis using Cons True Inr by simp
    qed
  qed
qed


section \<open>Bulk add\<close>

lemma coercible_iff: "coercible r \<longleftrightarrow> \<not> isl (coerce_row r)"
  by (auto simp: coercible_def coerce_row_def andthen_def getitem_def py_fromisoformat_def
      py_strip_def split: option.splits pyval.splits sum.splits)

lemma length_coerced_coercible: "length (coerced rows) = length (filter coercible rows)"
proof -
  have "coercible = (\<lambda>r. \<not> isl (coerce_row r))"
    by (rule ext) (rule coercible_iff)
  then show ?thesis by (simp add: length_coerced_filter)
qed

lemma coerced_Nil_iff: "coerced rows = [] \<longleftrightarrow> filter coercible rows = []"
  using length_coerced_coercible [of rows] by (metis length_0_conv)

lemma length_filter_not: "length (filter (\<lambda>x. \<not> P x) xs) = length xs - length (filter P xs)"
  using sum_length_filter_compl [of P xs] by simp

lemma coerce_blank_row:
  "coerce_row blank_row = Inr (\<lparr>year = 2024, month = 3, day = 5\<rparr>, [], ''bus'', Fin 3)"
  by code_simp

lemma coerce_failing_rows:
  "isl (coerce_row bad_date_row)" "isl (coerce_row no_amount_row)" "isl (coerce_row nan_category_row)"
  by code_simp+


lemma coercible_examples:
  "coercible good_row" "coercible blank_row" "\<not> coercible bad_date_row"
  "\<not> coercible no_amount_row" "\<not> coercible nan_category_row"
  by (simp_all add: coercible_iff coerce_good_row coerce_blank_row coerce_failing_rows)

text \<open>
  C2, as the claim has it, fails: a row whose category is blank is added, with the empty
  category, since \<^verbatim>\<open>bulk_add_expenses\<close> strips the category and the description but
  never looks whether anything is left (that check is made by \<^verbatim>\<open>validate_expenses\<close>).
\<close>

theorem bulk_add_expenses_adds_blank_category:
  "blank_row ''category'' = Some (PStr ''   '')
   \<and> snd (bulk_add_expenses [blank_row] (init_manager None)) = (1, 0)
   \<and> map category (expenses (fst (bulk_add_expenses [blank_row] (init_manager None)))) = [[]]"
proof -
  have "blank_row ''category'' = Some (PStr ''   '')"
    by (simp add: blank_row_def)
  then show ?thesis
    by (simp add: bulk_add_expenses_eq coerced_Cons coerce_blank_row init_manager_None Let_def
        persist_def)
qed

text \<open>
  C2, amended. \<^verbatim>\<open>bulk_add_expenses\<close> handles each row on its own: a row is added exactly
  when it is coercible (a text date that reads, a text category and description of any
  content, an amount that \<^verbatim>\<open>float()\<close> accepts), every other row is counted as skipped
  and the loop goes on; the rows added are appended in order, after the records already
  there, with the next ids; the result is (number added, number skipped), which sum to
  the number of rows; and \<^verbatim>\<open>save_all\<close> is called once, with the whole list, when a row
  was added, and not at all when none was.
\<close>

theorem bulk_add_expenses_adds_coercible_rows:
  "(case bulk_add_expenses rows m of
      (m', success_count, skipped_count) \<Rightarrow>
        success_count = length (filter coercible rows)
        \<and> skipped_count = length (filter (\<lambda>r. \<not> coercible r) rows)
        \<and> success_count + skipped_count = length rows
        \<and> expenses m' = expenses m @ number_from (next_id m) (coerced rows)
        \<and> length (coerced rows) = success_count
        \<and> save_calls m' = save_calls m + (if 0 < success_count then 1 else 0)
        \<and> backing_file m' = (if 0 < success_count then save_all (expenses m') else backing_file m))"
  using length_filter_le [of coercible rows]
  by (simp add: bulk_add_expenses_eq Let_def persist_def length_coerced_coercible length_filter_not
      coerced_Nil_iff)

text \<open>
  Ten rows of which three do not coerce give (7, 3) and one save; two rows that do not
  coerce give (0, 2) and no save.
\<close>

theorem bulk_add_expenses_ten_rows:
  "length ten_rows = 10
   \<and> length (filter (\<lambda>r. \<not> coercible r) ten_rows) = 3
   \<and> snd (bulk_add_expenses ten_rows (init_manager None)) = (7, 3)
   \<and> save_calls (fst (bulk_add_expenses ten_rows (init_manager None))) = 1
   \<and> snd (bulk_add_expenses [bad_date_row, no_amount_row] (init_manager None)) = (0, 2)
   \<and> save_calls (fst (bulk_add_expenses [bad_date_row, no_amount_row] (init_manager None))) = 0"
proof -
  have f: "length (filter coercible ten_rows) = 7"
    "length (filter (\<lambda>r. \<not> coercible r) ten_rows) = 3" "length ten_rows = 10"
    by (simp_all add: ten_rows_def coercible_examples)
  have g: "length (filter coercible [bad_date_row, no_amount_row]) = 0"
    "length (filter (\<lambda>r. \<not> coercible r) [bad_date_row, no_amount_row]) = 2"
    by (simp_all add: coercible_examples)
  have s0: "save_calls (init_manager None) = 0"
    by (simp add: init_manager_None)
  obtain m' ok sk where r: "bulk_add_expenses ten_rows (init_manager None) = (m', ok, sk)"
    by (cases "bulk_add_expenses ten_rows (init_manager None)")
  have 1: "ok = 7 \<and> sk = 3 \<and> save_calls m' = 1"
    using bulk_add_expenses_adds_coercible_rows [of ten_rows "init_manager None"]
    unfolding r by (simp add: f s0)
  obtain m'' ok' sk' where r': "bulk_add_expenses [bad_date_row, no_amount_row] (init_manager None) = (m'', ok', sk')"
    by (cases "bulk_add_expenses [bad_date_row, no_amount_row] (init_manager None)")
  have 2: "ok' = 0 \<and> sk' = 2 \<and> save_calls m'' = 0"
    using bulk_add_expenses_adds_coercible_rows [of "[bad_date_row, no_amount_row]" "init_manager None"]
    unfolding r' by (simp add: g s0 del: filter.simps)
  show ?thesis
    using 1 2 f unfolding r r' by simp
qed

section \<open>Parsing an import\<close>

lemma isl_row_to_dict: "isl (row_to_dict row) \<longleftrightarrow> isl (py_float (amount_cell row))"
  by (simp add: row_to_dict_def amount_cell_def andthen_def split: sum.splits)

lemma parse_rows_Inr:
  "\<forall>row\<in>set df. \<not> isl (row_to_dict row) \<Longrightarrow>
     parse_rows df acc = Inr (acc @ map (\<lambda>row. projr (row_to_dict row)) df)"
  by (induction df arbitrary: acc) (auto split: sum.splits)

lemma parse_rows_Inl:
  "\<exists>row\<in>set df. isl (row_to_dict row) \<Longrightarrow> isl (parse_rows df acc)"
  by (induction df arbitrary: acc) (auto split: sum.splits)

lemma isl_parse_csv_file:
  "isl (parse_csv_file (Inr df)) \<longleftrightarrow> (\<exists>row\<in>set df. isl (py_float (amount_cell row)))"
proof (cases "\<exists>row\<in>set df. isl (row_to_dict row)")
  case True
  then have "isl (parse_rows df [])" by (rule parse_rows_Inl)
  then show ?thesis
    using True by (auto simp: parse_csv_file_def andthen_def isl_row_to_dict split: sum.splits)
next
  case False
  then have "parse_rows df [] = Inr ([] @ map (\<lambda>row. projr (row_to_dict row)) df)"
    by (intro parse_rows_Inr) simp
  then show ?thesis
    using False by (auto simp: parse_csv_file_def andthen_def isl_row_to_dict)
qed

lemma parse_csv_file_Inr:
  assumes "\<forall>row\<in>set df. \<not> isl (py_float (amount_cell row))"
  shows "parse_csv_file (Inr df) = Inr (map (\<lambda>row. projr (row_to_dict row)) df)"
proof -
  have "parse_rows df [] = Inr ([] @ map (\<lambda>row. projr (row_to_dict row)) df)"
    using assms by (intro parse_rows_Inr) (simp add: isl_row_to_dict)
  then show ?thesis by (simp add: parse_csv_file_def andthen_def)
qed

lemma row_to_dict_canonical:
  "uses_Cost_Item row \<Longrightarrow> row_to_dict (canonical_names row) = row_to_dict row"
  by (simp add: uses_Cost_Item_def canonical_names_def row_to_dict_def row_get_def
      split: option.splits)

lemma parse_rows_cong:
  "\<forall>row\<in>set df. row_to_dict (f row) = row_to_dict row \<Longrightarrow>
     parse_rows (map f df) acc = parse_rows df acc"
  by (induction df arbitrary: acc) (auto split: sum.splits)

lemma float_abc: "float_of_str ''abc'' = Inl (ValueError (''could not convert string to float: '' @ py_repr ''abc''))"
  by code_simp


text \<open>
  C4, as the claim has it, fails: the conversion of the amount cell to a float is made
  inside \<^verbatim>\<open>parse_csv_file\<close>, under its \<^verbatim>\<open>try\<close>, so one row whose amount cell is text
  that is no number makes the whole parse raise, although the file was read.
\<close>

theorem parse_csv_file_fails_on_one_bad_amount:
  "text_cost_series ''Cost'' = Some (PStr ''abc'')
   \<and> parse_csv_file (Inr [fine_series, text_cost_series]) =
       Inl (ValueError (''CSV parsing error: could not convert string to float: '' @ py_repr ''abc''))"
proof -
  have 1: "\<not> isl (row_to_dict fine_series)"
    by (simp add: isl_row_to_dict amount_cell_def row_get_def fine_series_def py_float_def)
  have 2: "row_to_dict text_cost_series =
             Inl (ValueError (''could not convert string to float: '' @ py_repr ''abc''))"
    by (simp add: row_to_dict_def row_get_def text_cost_series_def py_float_def andthen_def
        float_abc)
  have 3: "text_cost_series ''Cost'' = Some (PStr ''abc'')"
    by (simp add: text_cost_series_def)
  obtain d where d: "row_to_dict fine_series = Inr d"
    using 1 by (cases "row_to_dict fine_series") simp_all
  have "parse_csv_file (Inr [fine_series, text_cost_series]) =
       Inl (ValueError (''CSV parsing error: could not convert string to float: '' @ py_repr ''abc''))"
    by (simp add: parse_csv_file_def andthen_def d 2)
  with 3 show ?thesis by (rule conjI)
qed

text \<open>
  C4, amended. \<^verbatim>\<open>parse_csv_file\<close> raises (a \<^verbatim>\<open>ValueError\<close>) exactly when the file
  cannot be read or the amount cell of some row (cost, else Cost, else amount, else 0) is
  not accepted by \<^verbatim>\<open>float()\<close>; no other problem of a row is raised. When it returns, it
  returns one dictionary for each row, in order. A row without an amount column gets the
  amount 0, one without a category column the empty category, one without a description
  column the empty description. A source that names its columns Cost and Item parses to
  the same result as the source with the names amount and description.
\<close>

theorem parse_csv_file_raises_only_for_file_or_amount:
  "parse_csv_file (Inl e) = Inl (ValueError (''CSV parsing error: '' @ exn_str e))
   \<and> isl (parse_csv_file (Inr df)) = (\<exists>row\<in>set df. isl (py_float (amount_cell row)))
   \<and> ((\<forall>row\<in>set df. \<not> isl (py_float (amount_cell row))) \<longrightarrow>
        parse_csv_file (Inr df) = Inr (map (\<lambda>row. projr (row_to_dict row)) df))
   \<and> (row ''cost'' = None \<and> row ''Cost'' = None \<and> row ''amount'' = None \<longrightarrow>
        \<not> isl (row_to_dict row) \<and> projr (row_to_dict row) ''amount'' = Some (PFloat (Fin 0)))
   \<and> (\<not> isl (row_to_dict row) \<and> row ''category'' = None \<and> row ''Category'' = None \<longrightarrow>
        projr (row_to_dict row) ''category'' = Some (PStr []))
   \<and> (\<not> isl (row_to_dict row) \<and> row ''item'' = None \<and> row ''Item'' = None
        \<and> row ''description'' = None \<longrightarrow>
        projr (row_to_dict row) ''description'' = Some (PStr []))
   \<and> ((\<forall>row\<in>set df. uses_Cost_Item row) \<longrightarrow>
        parse_csv_file (Inr (map canonical_names df)) = parse_csv_file (Inr df))"
proof -
  have 1: "parse_csv_file (Inl e) = Inl (ValueError (''CSV parsing error: '' @ exn_str e))"
    by (simp add: parse_csv_file_def andthen_def)
  have 3: "(\<forall>row\<in>set df. \<not> isl (py_float (amount_cell row))) \<longrightarrow>
        parse_csv_file (Inr df) = Inr (map (\<lambda>row. projr (row_to_dict row)) df)"
    using parse_csv_file_Inr by blast
  have 4: "row ''cost'' = None \<and> row ''Cost'' = None \<and> row ''amount'' = None \<longrightarrow>
        \<not> isl (row_to_dict row) \<and> projr (row_to_dict row) ''amount'' = Some (PFloat (Fin 0))"
    by (simp add: row_to_dict_def row_get_def py_float_def andthen_def)
  have 5: "\<not> isl (row_to_dict row) \<and> row ''category'' = None \<and> row ''Category'' = None \<longrightarrow>
        projr (row_to_dict row) ''category'' = Some (PStr [])"
    by (auto simp: row_to_dict_def row_get_def andthen_def split: sum.splits)
  have 6: "\<not> isl (row_to_dict row) \<and> row ''item'' = None \<and> row ''Item'' = None
        \<and> row ''description'' = None \<longrightarrow>
        projr (row_to_dict row) ''description'' = Some (PStr [])"
    by (auto simp: row_to_dict_def row_get_def andthen_def split: sum.splits)
  have 7: "(\<forall>row\<in>set df. uses_Cost_Item row) \<longrightarrow>
        parse_csv_file (Inr (map canonical_names df)) = parse_csv_file (Inr df)"
  proof
    assume "\<forall>row\<in>set df. uses_Cost_Item row"
    then have "parse_rows (map canonical_names df) [] = parse_rows df []"
      by (intro parse_rows_cong) (simp add: row_to_dict_canonical)
    then show "parse_csv_file (Inr (map canonical_names df)) = parse_csv_file (Inr df)"
      by (simp add: parse_csv_file_def andthen_def)
  qed
  show ?thesis
    by (intro conjI 1 isl_parse_csv_file 3 4 5 6 7)
qed


text \<open>
  A row with the columns Cost and Item parses, and parses the same under the canonical
  names; a row with a date only gets the amount 0 and empty category and description.
\<close>

theorem parse_csv_file_raises_only_for_file_or_amount_witness:
  "uses_Cost_Item fine_series
   \<and> parse_csv_file (Inr (map canonical_names [fine_series])) = parse_csv_file (Inr [fine_series])
   \<and> parse_csv_file (Inr [fine_series]) = Inr (map (\<lambda>row. projr (row_to_dict row)) [fine_series])
   \<and> bare_series ''cost'' = None
   \<and> projr (row_to_dict bare_series) ''amount'' = Some (PFloat (Fin 0))
   \<and> projr (row_to_dict bare_series) ''category'' = Some (PStr [])
   \<and> projr (row_to_dict bare_series) ''description'' = Some (PStr [])"
proof -
  note t = parse_csv_file_raises_only_for_file_or_amount
      [where df = "[fine_series]" and row = bare_series]
  note t3 = t [THEN conjunct2, THEN conjunct2]
  note t4 = t3 [THEN conjunct2]
  note t5 = t4 [THEN conjunct2]
  note t6 = t5 [THEN conjunct2]
  have u: "uses_Cost_Item fine_series"
    by (simp add: uses_Cost_Item_def fine_series_def)
  have ua: "\<forall>row\<in>set [fine_series]. uses_Cost_Item row"
    using u by simp
  have a: "\<forall>row\<in>set [fine_series]. \<not> isl (py_float (amount_cell row))"
    by (simp add: amount_cell_def row_get_def fine_series_def py_float_def)
  have b: "bare_series ''cost'' = None \<and> bare_series ''Cost'' = None \<and> bare_series ''amount'' = None"
    by (simp add: bare_series_def)
  have c: "bare_series ''category'' = None \<and> bare_series ''Category'' = None"
    by (simp add: bare_series_def)
  have d: "bare_series ''item'' = None \<and> bare_series ''Item'' = None \<and> bare_series ''description'' = None"
    by (simp add: bare_series_def)
  note r4 = t4 [THEN conjunct1, THEN mp, OF b]
  have ok: "\<not> isl (row_to_dict bare_series)"
    by (rule r4 [THEN conjunct1])
  show ?thesis
    using u t3 [THEN conjunct1, THEN mp, OF a] t6 [THEN conjunct2, THEN mp, OF ua]
      b r4 t5 [THEN conjunct1, THEN mp, OF conjI [OF ok c]]
      t6 [THEN conjunct1, THEN mp, OF conjI [OF ok d]]
    by simp
qed

section \<open>Validation of an import\<close>

lemma validate_row_None_iff: "validate_row i r = None \<longleftrightarrow> passes r"
  by (auto simp: validate_row_def validate_body_def passes_def andthen_def getitem_def
      py_fromisoformat_def py_strip_def split: option.splits pyval.splits sum.splits if_splits)

lemma validate_row_tagged:
  "validate_row i r = Some msg \<Longrightarrow> \<exists>txt. msg = row_msg i txt"
  by (auto simp: validate_row_def validate_body_def andthen_def split: sum.splits if_splits)

lemma validate_loop_eq:
  "validate_loop i rows valid errors =
     (valid @ filter passes rows,
      errors @ List.map_filter (\<lambda>(k, r). validate_row k r) (zip [i..<i + length rows] rows))"
proof (induction rows arbitrary: i valid errors)
  case Nil
  then show ?case by (simp add: List.map_filter_simps)
next
  case (Cons r rows)
  have "[i..<i + length (r # rows)] = i # [Suc i..<i + length (r # rows)]"
    by (rule upt_conv_Cons) simp
  then have u: "[i..<i + length (r # rows)] = i # [i + 1..<(i + 1) + length rows]"
    by simp
  show ?case
  proof (cases "validate_row i r")
    case None
    then show ?thesis
      using Cons [of "i + 1"] validate_row_None_iff [of i r]
      unfolding u by (simp add: List.map_filter_simps)
  next
    case (Some msg)
    then show ?thesis
      using Cons [of "i + 1"] validate_row_None_iff [of i r]
      unfolding u by (simp add: List.map_filter_simps)
  qed
qed

text \<open>
  Every row either passes and is kept, in order, or gets exactly one message, tagged
  with its 1-based number.
\<close>

lemma validate_expenses_eq:
  "validate_expenses rows =
     (filter passes rows,
      List.map_filter (\<lambda>(k, r). validate_row k r) (zip [1..<1 + length rows] rows))"
  by (simp add: validate_expenses_def validate_loop_eq del: upt_Suc)

lemma validate_expenses_lengths:
  "length (fst (validate_expenses rows)) + length (snd (validate_expenses rows)) = length rows"
proof -
  have "length (List.map_filter (\<lambda>(k, r). validate_row k r) (zip [i..<i + length rows] rows)) =
          length (filter (\<lambda>r. \<not> passes r) rows)" for i
  proof (induction rows arbitrary: i)
    case Nil
    then show ?case by (simp add: List.map_filter_simps)
  next
    case (Cons r rows)
    have "[i..<i + length (r # rows)] = i # [Suc i..<i + length (r # rows)]"
      by (rule upt_conv_Cons) simp
    then have u: "[i..<i + length (r # rows)] = i # [i + 1..<(i + 1) + length rows]"
      by simp
    show ?case
      using Cons [of "i + 1"] validate_row_None_iff [of i r]
      unfolding u by (cases "validate_row i r") (simp_all add: List.map_filter_simps)
  qed
  from this [of 1] show ?thesis
    using sum_length_filter_compl [of passes rows]
    by (simp add: validate_expenses_eq del: upt_Suc)
qed

text \<open>The row of the specification: one message, for row 1, with an invalid-date reason.\<close>

lemma validate_expenses_bad_date:
  "validate_expenses [bad_date_row] =
     ([], [''Row 1: Invalid date format - month must be in 1..12''])"
proof -
  have "validate_row 1 bad_date_row = Some ''Row 1: Invalid date format - month must be in 1..12''"
    by code_simp
  then show ?thesis by (simp add: validate_expenses_def)
qed

lemma row_to_dict_empty_cost: "row_to_dict empty_cost_series = Inr nan_row"
  by (simp add: row_to_dict_def row_get_def empty_cost_series_def nan_row_def py_float_def
      andthen_def)

text \<open>
  C3 fails on the code for an amount that is NaN, which \<^verbatim>\<open>parse_csv_file\<close> hands over
  for every row whose amount cell is empty: \<^verbatim>\<open>float(nan) <= 0\<close> is false, so the row
  raises no message and is kept as valid although its amount is not strictly positive.
  (For every other row the claim holds: see \<open>validate_expenses_eq\<close>,
  \<open>validate_row_tagged\<close> and \<open>validate_expenses_lengths\<close>.)
\<close>

theorem validate_expenses_accepts_nan_amount:
  "parse_csv_file (Inr [empty_cost_series]) = Inr [nan_row]
   \<and> nan_row ''amount'' = Some (PFloat NaN)
   \<and> \<not> fgt NaN (Fin 0)
   \<and> validate_expenses [nan_row] = ([nan_row], [])"
proof -
  have 1: "parse_csv_file (Inr [empty_cost_series]) = Inr [nan_row]"
    by (simp add: parse_csv_file_def andthen_def row_to_dict_empty_cost)
  have 2: "nan_row ''amount'' = Some (PFloat NaN)"
    by (simp add: nan_row_def)
  have "passes nan_row"
    by code_simp
  then have 3: "validate_expenses [nan_row] = ([nan_row], [])"
    by (simp add: validate_expenses_eq List.map_filter_simps validate_row_None_iff [THEN iffD2])
  show ?thesis using 1 2 3 by simp
qed

section \<open>The monthly summary\<close>










lemma amounts_total_append:
  "amounts_total (es @ [e]) = amounts_total es + val (amount e)"
  by (simp add: amounts_total_def)










lemma distinct_days_0: "distinct_days es = 0 \<longleftrightarrow> es = []"
  by (simp add: distinct_days_def)







section \<open>Writing and reading back\<close>

lemma digit_char_digit: "d < 10 \<Longrightarrow> is_digit (digit_char d)"
  by (simp add: is_digit_def digit_char_def)

lemma digit_val_digit_char: "d < 10 \<Longrightarrow> digit_val (digit_char d) = d"
  by (simp add: digit_val_def digit_char_def)

lemma digit_not_special:
  assumes "is_digit c"
  shows "\<not> is_space c" "c \<noteq> CHR ''-''" "c \<noteq> CHR ''+''" "c \<noteq> CHR ''_''" "c \<noteq> CHR ''.''"
    "c \<noteq> CHR ''e''" "c \<noteq> CHR ''E''" "c \<noteq> CHR ''i''" "c \<noteq> CHR ''n''"
    "c \<noteq> CHR ''I''" "c \<noteq> CHR ''N''"
  using assms by (auto simp: is_digit_def is_space_def)

lemma str_nat_digits: "list_all is_digit (str_nat n)"
proof (induction n rule: str_nat.induct)
  case (1 n)
  show ?case
  proof (cases "n < 10")
    case True
    then show ?thesis by (subst str_nat.simps) (simp add: digit_char_digit)
  next
    case False
    then show ?thesis using 1 by (subst str_nat.simps) (simp add: digit_char_digit)
  qed
qed

lemma str_nat_nonempty: "str_nat n \<noteq> []"
  by (subst str_nat.simps) simp

lemma digits_val_snoc:
  "is_digit c \<Longrightarrow> digits_val (s @ [c]) = 10 * digits_val s + digit_val c"
  by (simp add: digits_val_def)

lemma digits_val_str_nat: "digits_val (str_nat n) = n"
proof (induction n rule: str_nat.induct)
  case (1 n)
  show ?case
  proof (cases "n < 10")
    case True
    then show ?thesis
      by (subst str_nat.simps) (simp add: digits_val_def digit_char_digit digit_val_digit_char)
  next
    case False
    have "digits_val (str_nat (n div 10) @ [digit_char (n mod 10)]) =
            10 * digits_val (str_nat (n div 10)) + digit_val (digit_char (n mod 10))"
      by (rule digits_val_snoc) (simp add: digit_char_digit)
    then show ?thesis
      using False 1 by (subst str_nat.simps) (simp add: digit_val_digit_char)
  qed
qed

lemma digitpart_all_digits: "s \<noteq> [] \<Longrightarrow> list_all is_digit s \<Longrightarrow> digitpart s"
  by (induction s rule: digitpart.induct) (auto simp: digit_not_special)

lemma dropWhile_id: "s \<noteq> [] \<Longrightarrow> \<not> P (hd s) \<Longrightarrow> dropWhile P s = s"
  by (cases s) simp_all

lemma strip_id: "s \<noteq> [] \<Longrightarrow> \<not> is_space (hd s) \<Longrightarrow> \<not> is_space (last s) \<Longrightarrow> strip s = s"
  by (simp add: strip_def dropWhile_id hd_rev)

lemma all_digits_ends:
  assumes "s \<noteq> []" "list_all is_digit s"
  shows "is_digit (hd s)" "is_digit (last s)"
  using assms by (simp_all add: list_all_iff)

lemma split_sign_digits: "s \<noteq> [] \<Longrightarrow> is_digit (hd s) \<Longrightarrow> split_sign s = (False, s)"
  by (cases s) (auto simp: split_sign_def digit_not_special)

lemma split_sign_minus: "split_sign (CHR ''-'' # s) = (True, s)"
  by (simp add: split_sign_def)



lemma length_str_nat: "n < 10 ^ k \<Longrightarrow> 0 < k \<Longrightarrow> length (str_nat n) \<le> k"
proof (induction n arbitrary: k rule: str_nat.induct)
  case (1 n)
  show ?case
  proof (cases "n < 10")
    case True
    then show ?thesis using "1.prems" by (subst str_nat.simps) simp
  next
    case False
    obtain j where k: "k = Suc j" using "1.prems"(2) by (cases k) simp_all
    have j: "0 < j"
    proof (rule ccontr)
      assume "\<not> 0 < j"
      then show False using k "1.prems"(1) False by simp
    qed
    have "n div 10 < 10 ^ j"
      using "1.prems"(1) k by (simp add: less_mult_imp_div_less mult.commute)
    then have "length (str_nat (n div 10)) \<le> j"
      using "1.IH" [OF False _ j] by simp
    then show ?thesis using False k by (subst str_nat.simps) simp
  qed
qed

lemma digit_zero: "is_digit (CHR ''0'')" "digit_val (CHR ''0'') = 0"
  by (simp_all add: is_digit_def digit_val_def)

lemma zfill_digits: "list_all is_digit s \<Longrightarrow> list_all is_digit (zfill k s)"
  by (auto simp: zfill_def digit_zero list_all_iff)

lemma length_zfill: "length s \<le> k \<Longrightarrow> length (zfill k s) = k"
  by (simp add: zfill_def)

lemma digits_val_zeros: "digits_val (replicate j (CHR ''0'') @ s) = digits_val s"
  by (induction j) (simp_all add: digits_val_def digit_zero)

lemma digits_val_zfill: "digits_val (zfill k s) = digits_val s"
  by (simp add: zfill_def digits_val_zeros)

lemma zfill_str_nat:
  assumes "n < 10 ^ k" "0 < k"
  shows "length (zfill k (str_nat n)) = k" "list_all is_digit (zfill k (str_nat n))"
    "digits_val (zfill k (str_nat n)) = n"
  using length_str_nat [OF assms]
  by (simp_all add: length_zfill zfill_digits str_nat_digits digits_val_zfill digits_val_str_nat)




lemma round_half_even_nonneg: "0 \<le> y \<Longrightarrow> 0 \<le> round_half_even y"
  by (auto simp: round_half_even_def Let_def)


lemma split_at_none: "\<forall>c\<in>set s. \<not> P c \<Longrightarrow> split_at P s = (s, None)"
  by (simp add: split_at_def takeWhile_eq_all_conv [THEN iffD2] dropWhile_eq_Nil_conv [THEN iffD2])

lemma split_at_some:
  "\<forall>c\<in>set a. \<not> P c \<Longrightarrow> P b \<Longrightarrow> split_at P (a @ b # r) = (a, Some r)"
  by (simp add: split_at_def takeWhile_append2 dropWhile_append2)

lemma digits_val_append:
  "list_all is_digit b \<Longrightarrow> digits_val (a @ b) = digits_val a * 10 ^ length b + digits_val b"
proof (induction b rule: rev_induct)
  case Nil
  then show ?case by (simp add: digits_val_def)
next
  case (snoc c b)
  then have c: "is_digit c" and b: "list_all is_digit b" by simp_all
  have "digits_val ((a @ b) @ [c]) = 10 * digits_val (a @ b) + digit_val c"
    using c by (rule digits_val_snoc)
  moreover have "digits_val (b @ [c]) = 10 * digits_val b + digit_val c"
    using c by (rule digits_val_snoc)
  ultimately show ?case using snoc.IH [OF b] by (simp add: algebra_simps)
qed

lemma lower_not_word:
  "u \<noteq> [] \<Longrightarrow> is_digit (hd u) \<Longrightarrow>
     lower u \<noteq> ''inf'' \<and> lower u \<noteq> ''infinity'' \<and> lower u \<noteq> ''nan''"
  by (cases u) (auto simp: lower_def is_digit_def)


text \<open>The text \<^verbatim>\<open>q.rr\<close> of a number of hundredths, and what \<^verbatim>\<open>float()\<close> reads from it.\<close>

lemma decimal_text:
  fixes q r :: nat
  assumes r: "r < 100"
  defines "ip \<equiv> str_nat q" and "f \<equiv> zfill 2 (str_nat r)"
  defines "u \<equiv> ip @ ''.'' @ f"
  shows "u \<noteq> []" "is_digit (hd u)" "is_digit (last u)"
    "parse_number u = Some (of_nat (q * 100 + r) / 100)"
proof -
  have r': "r < 10 ^ 2" using r by simp
  note fz = zfill_str_nat [OF r', folded f_def, simplified]
  have ipd: "ip \<noteq> []" "list_all is_digit ip"
    unfolding ip_def by (rule str_nat_nonempty, rule str_nat_digits)
  have fne: "f \<noteq> []" using fz(1) by auto
  show "u \<noteq> []" by (simp add: u_def)
  show "is_digit (hd u)"
    using all_digits_ends(1) [OF ipd] ipd(1) by (simp add: u_def)
  show "is_digit (last u)"
    using all_digits_ends(2) [OF fne fz(2)] fne by (simp add: u_def)
  have nd: "\<not> is_digit (CHR ''e'')" "\<not> is_digit (CHR ''E'')" "\<not> is_digit (CHR ''.'')"
    by (simp_all add: is_digit_def)
  have noe: "\<forall>c\<in>set u. \<not> (c = CHR ''e'' \<or> c = CHR ''E'')"
    using ipd(2) fz(2) nd by (auto simp: u_def list_all_iff)
  have nodot: "\<forall>c\<in>set ip. \<not> c = CHR ''.''"
    using ipd(2) nd by (auto simp: list_all_iff)
  have s1: "split_at (\<lambda>c. c = CHR ''e'' \<or> c = CHR ''E'') u = (u, None)"
    using noe by (rule split_at_none)
  have s2: "split_at (\<lambda>c. c = CHR ''.'') u = (ip, Some f)"
    unfolding u_def using split_at_some [OF nodot, of "CHR ''.''" f] by simp
  have ok: "mantissa_ok ip (Some f)"
    using digitpart_all_digits [OF ipd] digitpart_all_digits [OF fne fz(2)] ipd(1)
    by (simp add: mantissa_ok_def)
  have fd: "filter is_digit f = f"
    using fz(2) by (simp add: list_all_iff)
  have v: "digits_val (ip @ f) = q * 100 + r"
    using digits_val_append [OF fz(2), of ip] fz(1,3)
    by (simp add: ip_def digits_val_str_nat)
  have mv: "mantissa_val ip (Some f) = of_nat (q * 100 + r) / 100"
    using v fz(1) by (simp add: mantissa_val_def fd)
  show "parse_number u = Some (of_nat (q * 100 + r) / 100)"
    using ok mv by (simp add: parse_number_def s1 s2 exponent_ok_def scale10_def)
qed

lemma float_of_str_words:
  "float_of_str ''nan'' = Inr NaN" "float_of_str ''inf'' = Inr PInf"
  "float_of_str ''-inf'' = Inr NInf"
  by code_simp+

text \<open>Reading back an amount written with two decimals gives the amount rounded.\<close>

lemma float_of_str_fmt2: "float_of_str (fmt2 a) = Inr (round2 a)"
proof (cases a)
  case (Fin x)
  define n where "n = nat (round_half_even (\<bar>x\<bar> * 100))"
  define u where "u = str_nat (n div 100) @ ''.'' @ zfill 2 (str_nat (n mod 100))"
  have r: "n mod 100 < 100" by simp
  note d = decimal_text [OF r, of "n div 100", folded u_def]
  have nn: "of_int (round_half_even (\<bar>x\<bar> * 100)) = (of_nat n :: rat)"
    using round_half_even_nonneg [of "\<bar>x\<bar> * 100"] by (simp add: n_def)
  have pv: "parse_number u = Some (of_nat n / 100)"
    using d(4) by simp
  have sp: "\<not> is_space (hd u)" "\<not> is_space (last u)"
    using d(2,3) by (simp_all add: digit_not_special)
  have low: "lower u \<noteq> ''inf'' \<and> lower u \<noteq> ''infinity'' \<and> lower u \<noteq> ''nan''"
    using d(1,2) by (rule lower_not_word)
  show ?thesis
  proof (cases "x < 0")
    case True
    have f: "fmt2 (Fin x) = CHR ''-'' # u"
      using True by (simp add: fmt2_def Let_def n_def u_def)
    have m: "\<not> is_space (CHR ''-'')" by (simp add: is_space_def)
    have st: "strip (CHR ''-'' # u) = CHR ''-'' # u"
      using d(1) m sp(2) by (intro strip_id) simp_all
    show ?thesis
      using True low pv nn
      by (simp add: Fin f float_of_str_def st split_sign_minus round2_def)
  next
    case False
    have f: "fmt2 (Fin x) = u"
      using False by (simp add: fmt2_def Let_def n_def u_def)
    have st: "strip u = u"
      using d(1) sp by (intro strip_id)
    show ?thesis
      using False low pv nn
      by (simp add: Fin f float_of_str_def st split_sign_digits [OF d(1,2)] round2_def)
  qed
qed (simp_all add: fmt2_def round2_def float_of_str_words)















subsection \<open>A file with malformed rows\<close>

text \<open>
  \<open>sample_file\<close> holds the header and six rows: a good one, one with three fields, one
  whose id is no integer, one whose month is 13, one whose amount is no number, and a
  good one whose id is padded with blanks and whose category is empty. Loading it gives
  the first and the last.
\<close>

lemma sample_cells:
  "py_int ''1'' = Inr 1" "py_int '' 6 '' = Inr 6" "isl (py_int ''x'')"
  "date_fromisoformat ''2024-01-01'' = Inr jan1"
  "isl (date_fromisoformat ''2024-13-01'')"
  "isl (float_of_str ''lots'')"
  by code_simp+

lemma sample_amounts:
  "float_of_str ''12.50'' = Inr (Fin (25 / 2))" "float_of_str ''2.00'' = Inr (Fin 2)"
proof -
  have a: "fmt2 (Fin (25 / 2)) = ''12.50''" "fmt2 (Fin 2) = ''2.00''" by code_simp+
  have r: "round2 (Fin (25 / 2)) = Fin (25 / 2)" "round2 (Fin 2) = Fin 2" by code_simp+
  show "float_of_str ''12.50'' = Inr (Fin (25 / 2))"
    using float_of_str_fmt2 [of "Fin (25 / 2)"] by (simp only: a r)
  show "float_of_str ''2.00'' = Inr (Fin 2)"
    using float_of_str_fmt2 [of "Fin 2"] by (simp only: a r)
qed

lemma load_all_sample_file:
  "load_all sample_file =
     [\<lparr>ident = 1, date = jan1, category = ''Food'', description = ''lunch'', amount = Fin (25 / 2)\<rparr>,
      \<lparr>ident = 6, date = jan1, category = [], description = ''a, b'', amount = Fin 2\<rparr>]"
  by (simp add: sample_file_def load_all_def load_rows_eq well_formed_def parsed_def headers_def
      sample_cells sample_amounts)
end
